theory Spec2Isabelle
  imports Main "HOL-Library.Word" "HOL-Library.Sublist"
begin

section \<open>Settings (settings.ts)\<close>

text \<open>
  The value of a property of a settings object: a value of the declared type, or
  \<^verbatim>\<open>undefined\<close>. The type \<^verbatim>\<open>Partial<ISettings>\<close> admits a property that is present with
  the value \<^verbatim>\<open>undefined\<close>, and the object spread copies such a property like any other.
\<close>

datatype 'a field = Undefined | Defined 'a

text \<open>
  The object that \<^verbatim>\<open>settingsWithDefaults\<close> returns, typed \<^verbatim>\<open>ISettings\<close>. The two calendar
  fields have string-literal union types of the calendar library; at run time they are
  strings, and they are modelled as strings.
\<close>

record ISettings =
  tasksHeader :: "string field"
  blankLineAfterHeader :: "bool field"
  preserveMovedTasks :: "bool field"
  localeOverride :: "string field"
  weekStart :: "string field"

text \<open>
  \<^verbatim>\<open>Partial<ISettings>\<close>: every property is absent (\<open>None\<close>) or present, with a value of its
  type (\<open>Some (Defined v)\<close>) or with \<^verbatim>\<open>undefined\<close> (\<open>Some Undefined\<close>).
\<close>

record PartialISettings =
  opt_tasksHeader :: "string field option"
  opt_blankLineAfterHeader :: "bool field option"
  opt_preserveMovedTasks :: "bool field option"
  opt_localeOverride :: "string field option"
  opt_weekStart :: "string field option"

definition defaultSettings :: ISettings where
  "defaultSettings =
     \<lparr> tasksHeader = Defined ''## Tasks'',
       blankLineAfterHeader = Defined True,
       preserveMovedTasks = Defined False,
       localeOverride = Defined ''system-default'',
       weekStart = Defined ''locale'' \<rparr>"

text \<open>
  One property of the object spread \<^verbatim>\<open>{ ...defaults, ...settings }\<close>: the later
  object's property wins when it is present, whatever its value.
\<close>

definition spread :: "'a \<Rightarrow> 'a option \<Rightarrow> 'a" where
  "spread dflt given = (case given of None \<Rightarrow> dflt | Some v \<Rightarrow> v)"

definition settingsWithDefaults :: "PartialISettings \<Rightarrow> ISettings" where
  "settingsWithDefaults settings =
     \<lparr> tasksHeader = spread (tasksHeader defaultSettings) (opt_tasksHeader settings),
       blankLineAfterHeader =
         spread (blankLineAfterHeader defaultSettings) (opt_blankLineAfterHeader settings),
       preserveMovedTasks =
         spread (preserveMovedTasks defaultSettings) (opt_preserveMovedTasks settings),
       localeOverride = spread (localeOverride defaultSettings) (opt_localeOverride settings),
       weekStart = spread (weekStart defaultSettings) (opt_weekStart settings) \<rparr>"

text \<open>A complete settings value: every field holds a value of its type.\<close>

definition isComplete :: "ISettings \<Rightarrow> bool" where
  "isComplete s =
     (tasksHeader s \<noteq> Undefined \<and> blankLineAfterHeader s \<noteq> Undefined
      \<and> preserveMovedTasks s \<noteq> Undefined \<and> localeOverride s \<noteq> Undefined
      \<and> weekStart s \<noteq> Undefined)"

text \<open>A partial settings object with a property that is present and \<^verbatim>\<open>undefined\<close>.\<close>

definition hasUndefined :: "PartialISettings \<Rightarrow> bool" where
  "hasUndefined p =
     (opt_tasksHeader p = Some Undefined \<or> opt_blankLineAfterHeader p = Some Undefined
      \<or> opt_preserveMovedTasks p = Some Undefined \<or> opt_localeOverride p = Some Undefined
      \<or> opt_weekStart p = Some Undefined)"

text \<open>
  The returned object passed as an argument again: it is assignable to
  \<^verbatim>\<open>Partial<ISettings>\<close>, every property present.
\<close>

definition asPartial :: "ISettings \<Rightarrow> PartialISettings" where
  "asPartial s =
     \<lparr> opt_tasksHeader = Some (tasksHeader s),
       opt_blankLineAfterHeader = Some (blankLineAfterHeader s),
       opt_preserveMovedTasks = Some (preserveMovedTasks s),
       opt_localeOverride = Some (localeOverride s),
       opt_weekStart = Some (weekStart s) \<rparr>"

definition sampleSettings :: PartialISettings where
  "sampleSettings =
     \<lparr> opt_tasksHeader = Some (Defined ''# Todo''), opt_blankLineAfterHeader = None,
       opt_preserveMovedTasks = Some (Defined True), opt_localeOverride = None,
       opt_weekStart = None \<rparr>"

definition undefinedHeader :: PartialISettings where
  "undefinedHeader =
     \<lparr> opt_tasksHeader = Some Undefined, opt_blankLineAfterHeader = None,
       opt_preserveMovedTasks = None, opt_localeOverride = None, opt_weekStart = None \<rparr>"


section \<open>The file-open callback (main.ts, onload)\<close>

text \<open>
  Of a \<^verbatim>\<open>TFile\<close> the callback reads only \<^verbatim>\<open>basename\<close>; the path identifies the file.
\<close>

record TFile =
  path :: string
  basename :: string

text \<open>
  The plugin instance: the remembered \<^verbatim>\<open>lastFile\<close> (\<open>None\<close> for \<^verbatim>\<open>undefined\<close>) and the
  task handler. The class \<^verbatim>\<open>TaskHandler\<close> is in another module; its state is the type
  parameter \<open>'h\<close> and its method \<^verbatim>\<open>processFile\<close> is the parameter \<open>processFile\<close> of the
  callback, which maps a file and the handler's state to the state after the call.
\<close>

record 'h SlatedPlugin =
  lastFile :: "TFile option"
  taskHandler :: 'h

definition callProcessFile ::
    "(TFile \<Rightarrow> 'h \<Rightarrow> 'h) \<Rightarrow> TFile \<Rightarrow> 'h SlatedPlugin \<Rightarrow> 'h SlatedPlugin" where
  "callProcessFile processFile file this =
     this\<lparr>taskHandler := processFile file (taskHandler this)\<rparr>"

text \<open>
  The callback registered for \<^verbatim>\<open>'file-open'\<close>. Its argument is \<open>None\<close> for a null file.
  \<^verbatim>\<open>!file.basename\<close> holds for the empty string.
\<close>

definition fileOpen ::
    "(TFile \<Rightarrow> 'h \<Rightarrow> 'h) \<Rightarrow> TFile option \<Rightarrow> 'h SlatedPlugin \<Rightarrow> 'h SlatedPlugin" where
  "fileOpen processFile file this =
     (case file of
        None \<Rightarrow> this
      | Some f \<Rightarrow>
          if basename f = [] then this
          else
            let this1 = (case lastFile this of
                           Some l \<Rightarrow> callProcessFile processFile l this
                         | None \<Rightarrow> this);
                this2 = this1\<lparr>lastFile := Some f\<rparr>
            in callProcessFile processFile f this2)"

text \<open>
  A handler state that records the calls of \<^verbatim>\<open>processFile\<close> in the order they are made.
\<close>

definition logCall :: "TFile \<Rightarrow> TFile list \<Rightarrow> TFile list" where
  "logCall file calls = calls @ [file]"

definition onloadState :: "'h \<Rightarrow> 'h SlatedPlugin" where
  "onloadState h = \<lparr> lastFile = None, taskHandler = h \<rparr>"



section \<open>Serialized scans\<close>












section \<open>The rendered document (DOM)\<close>

text \<open>
  A JavaScript string is a sequence of UTF-16 code units. \<open>js\<close> writes an ASCII literal
  as such a string.
\<close>

type_synonym jschar = "16 word"
type_synonym jsstring = "jschar list"

definition js :: "string \<Rightarrow> jsstring" where
  "js s = map of_char s"

text \<open>
  A node of the document is a text node, a comment, or an element with its tag name
  (the local name, in lower case for the elements of an HTML document), its class list
  and its child nodes. The post-processor reads and writes no other attribute.
\<close>

datatype node =
    Text jsstring
  | Comment jsstring
  | Element string "string list" "node list"

fun nodeType :: "node \<Rightarrow> nat" where
  "nodeType (Element t c ks) = 1"
| "nodeType (Text s) = 3"
| "nodeType (Comment s) = 8"

fun childNodes :: "node \<Rightarrow> node list" where
  "childNodes (Element t c ks) = ks"
| "childNodes n = []"

fun classList :: "node \<Rightarrow> string list" where
  "classList (Element t c ks) = c"
| "classList n = []"

text \<open>
  \<^verbatim>\<open>getText()\<close> is the node's \<^verbatim>\<open>textContent\<close>: for an element, the data of its text
  descendants in tree order, comments left out.
\<close>

fun descendantText :: "node \<Rightarrow> jsstring" where
  "descendantText (Text s) = s"
| "descendantText (Comment s) = []"
| "descendantText (Element t c ks) = concat (map descendantText ks)"

fun getText :: "node \<Rightarrow> jsstring" where
  "getText (Comment s) = s"
| "getText n = descendantText n"

definition hasClass :: "node \<Rightarrow> string \<Rightarrow> bool" where
  "hasClass n cls = (cls \<in> set (classList n))"

fun addClass :: "string \<Rightarrow> node \<Rightarrow> node" where
  "addClass cls (Element t c ks) = Element t (if cls \<in> set c then c else c @ [cls]) ks"
| "addClass cls n = n"

text \<open>
  The code units that \<^verbatim>\<open>trimLeft\<close> removes: the white space and line terminators of
  ECMAScript.
\<close>

definition isWhiteSpace :: "jschar \<Rightarrow> bool" where
  "isWhiteSpace c =
     (c \<in> {0x09, 0x0A, 0x0B, 0x0C, 0x0D, 0x20, 0xA0, 0x1680, 0x2028, 0x2029, 0x202F,
            0x205F, 0x3000, 0xFEFF}
      \<or> (0x2000 \<le> c \<and> c \<le> 0x200A))"

definition trimLeft :: "jsstring \<Rightarrow> jsstring" where
  "trimLeft s = dropWhile isWhiteSpace s"

definition startsWith :: "jsstring \<Rightarrow> jsstring \<Rightarrow> bool" where
  "startsWith s p = (take (length p) s = p)"

text \<open>
  \<^verbatim>\<open>el.getElementsByTagName(tg)\<close>: the descendants of \<open>el\<close> with that tag name, in tree
  order; \<open>el\<close> itself is not among them.
\<close>

fun elementsByTagName :: "string \<Rightarrow> node \<Rightarrow> node list" where
  "elementsByTagName tg (Element t c ks) =
     (if t = tg then [Element t c ks] else []) @ concat (map (elementsByTagName tg) ks)"
| "elementsByTagName tg n = []"

definition getElementsByTagName :: "node \<Rightarrow> string \<Rightarrow> node list" where
  "getElementsByTagName el tg = concat (map (elementsByTagName tg) (childNodes el))"

text \<open>
  The array \<^verbatim>\<open>Object.values(el.getElementsByTagName('li'))\<close> holds references to elements
  of the document. Its \<open>i\<close>-th entry is the \<open>i\<close>-th element with the tag in tree order, and
  a mutation through that reference is a mutation of that element inside the tree:
  \<open>modifyNth tg f i n\<close> applies \<open>f\<close> to the \<open>i\<close>-th element with tag \<open>tg\<close> among \<open>n\<close> and its
  descendants, \<open>modifyNthOf\<close> does so in a list of siblings, and \<open>modifyDescendant\<close> among
  the descendants of \<open>el\<close>. The callback of the post-processor adds and removes no
  list item, so the number names the same element for the whole loop.
\<close>

function (sequential) modifyNth :: "string \<Rightarrow> (node \<Rightarrow> node) \<Rightarrow> nat \<Rightarrow> node \<Rightarrow> node"
  and modifyNthOf :: "string \<Rightarrow> (node \<Rightarrow> node) \<Rightarrow> nat \<Rightarrow> node list \<Rightarrow> node list" where
  "modifyNth tg f i (Element t c ks) =
     (if t = tg then (if i = 0 then f (Element t c ks) else Element t c (modifyNthOf tg f (i - 1) ks))
      else Element t c (modifyNthOf tg f i ks))"
| "modifyNth tg f i n = n"
| "modifyNthOf tg f i [] = []"
| "modifyNthOf tg f i (n # ns) =
     (let c = length (elementsByTagName tg n)
      in if i < c then modifyNth tg f i n # ns else n # modifyNthOf tg f (i - c) ns)"
  by pat_completeness auto
termination
  by (relation "measure (\<lambda>x. case x of Inl (tg, f, i, n) \<Rightarrow> 2 * size n
                                     | Inr (tg, f, i, ns) \<Rightarrow> Suc (2 * size_list size ns))") auto

definition modifyDescendant :: "string \<Rightarrow> (node \<Rightarrow> node) \<Rightarrow> nat \<Rightarrow> node \<Rightarrow> node" where
  "modifyDescendant tg f i el =
     (case el of Element t c ks \<Rightarrow> Element t c (modifyNthOf tg f i ks) | _ \<Rightarrow> el)"


section \<open>The post-processor of moved tasks (main.ts, renderMovedTasks)\<close>

text \<open>
  The filter of the post-processor: the item is not marked as a task-list item and its
  text, trimmed on the left, starts with the moved glyph.
\<close>

definition isMovedItem :: "node \<Rightarrow> bool" where
  "isMovedItem listItem =
     (\<not> hasClass listItem ''task-list-item''
      \<and> startsWith (trimLeft (getText listItem)) (js ''[>]''))"

text \<open>
  The loop over \<^verbatim>\<open>listItem.childNodes\<close>: the first child of node type 3 gets
  \<^verbatim>\<open>textContent.slice(4)\<close>, which is the empty string when the text has fewer than four
  code units, and the loop stops there.
\<close>

fun sliceFirstText :: "node list \<Rightarrow> node list" where
  "sliceFirstText [] = []"
| "sliceFirstText (Text s # rest) = Text (drop 4 s) # rest"
| "sliceFirstText (child # rest) = child # sliceFirstText rest"

fun sliceChildren :: "node \<Rightarrow> node" where
  "sliceChildren (Element t c ks) = Element t c (sliceFirstText ks)"
| "sliceChildren n = n"

text \<open>
  \<^verbatim>\<open>Element(movedIconSvg)\<close>: the document element of the SVG text parsed as XML. The
  line breaks and the indentation between its tags are text nodes of the parsed tree.
\<close>

definition movedIcon :: node where
  "movedIcon =
     Element ''svg'' [''slated-moved-icon'']
       [Text (js [CHR 0x0A, CHR '' '', CHR '' '']),
        Element ''g'' []
          [Text (js [CHR 0x0A, CHR '' '', CHR '' '', CHR '' '', CHR '' '']),
           Element ''path'' [] [],
           Text (js [CHR 0x0A, CHR '' '', CHR '' '', CHR '' '', CHR '' '']),
           Element ''path'' [] [],
           Text (js [CHR 0x0A, CHR '' '', CHR '' ''])],
        Text (js [CHR 0x0A])]"

text \<open>
  \<^verbatim>\<open>listItem.insertBefore(new, listItem.firstChild)\<close>: the new node becomes the first
  child (the only one when there was none).
\<close>

fun insertFirst :: "node \<Rightarrow> node \<Rightarrow> node" where
  "insertFirst new (Element t c ks) = Element t c (new # ks)"
| "insertFirst new n = n"

text \<open>The callback of \<^verbatim>\<open>forEach\<close>: the loop, then \<^verbatim>\<open>addClass\<close>, then \<^verbatim>\<open>insertBefore\<close>.\<close>

definition markMoved :: "node \<Rightarrow> node" where
  "markMoved listItem =
     insertFirst movedIcon (addClass ''task-list-item'' (sliceChildren listItem))"

text \<open>
  The post-processor: the filter runs over the whole array before the first callback
  does, and the callbacks run in the order of the array. The result is the element
  \<open>el\<close> after all mutations.
\<close>

definition renderMovedTasks :: "node \<Rightarrow> node" where
  "renderMovedTasks el =
     (let items = getElementsByTagName el ''li'';
          moved = filter (\<lambda>i. isMovedItem (items ! i)) [0..<length items]
      in fold (modifyDescendant ''li'' markMoved) moved el)"


section \<open>What the post-processor is to do\<close>

text \<open>
  The effect on the child nodes of a rewritten list item, said without the loop: the
  children before the first text node stay, the first text node loses its first four
  code units (all of them when it has fewer), the children after it stay; nothing
  changes when no child is a text node.
\<close>

definition cutFirstText :: "node list \<Rightarrow> node list" where
  "cutFirstText ks =
     (case dropWhile (\<lambda>n. nodeType n \<noteq> 3) ks of
        [] \<Rightarrow> ks
      | n # post \<Rightarrow> takeWhile (\<lambda>n. nodeType n \<noteq> 3) ks @ Text (drop 4 (getText n)) # post)"

text \<open>
  The document after the post-processor, said without the array and the loop: every
  list item that is not marked as a task-list item and whose text, trimmed on the
  left, starts with the moved glyph gets the mark, the icon as its first child and its
  first text node cut; every other node keeps its tag, its class list and its
  children, and the same holds inside the children of both.
\<close>

fun rewriteMoved :: "node \<Rightarrow> node" where
  "rewriteMoved (Element t c ks) =
     (if t = ''li'' \<and> \<not> hasClass (Element t c ks) ''task-list-item''
         \<and> startsWith (trimLeft (getText (Element t c ks))) (js ''[>]'')
      then Element t (c @ [''task-list-item''])
             (movedIcon # cutFirstText (map rewriteMoved ks))
      else Element t c (map rewriteMoved ks))"
| "rewriteMoved n = n"


section \<open>Notions used in the proofs\<close>

text \<open>The indices that the filter keeps.\<close>

definition movedIndices :: "node list \<Rightarrow> nat list" where
  "movedIndices items = filter (\<lambda>i. isMovedItem (items ! i)) [0..<length items]"

text \<open>
  One pass over the tree that rewrites every list item the filter keeps, the filter
  read on the tree as it was before the pass. It is proved below to give what the
  loop of the post-processor gives.
\<close>

fun rendered :: "node \<Rightarrow> node" where
  "rendered (Element t c ks) =
     (if t = ''li'' \<and> isMovedItem (Element t c ks)
      then markMoved (Element t c (map rendered ks))
      else Element t c (map rendered ks))"
| "rendered n = n"

abbreviation lis :: "node \<Rightarrow> node list" where
  "lis n \<equiv> elementsByTagName ''li'' n"

abbreviation lisOf :: "node list \<Rightarrow> node list" where
  "lisOf ns \<equiv> concat (map (elementsByTagName ''li'') ns)"

text \<open>A text that, trimmed on the left, starts with the moved glyph.\<close>

definition movedText :: "jsstring \<Rightarrow> bool" where
  "movedText s = startsWith (trimLeft s) (js ''[>]'')"

text \<open>
  How a pass changes the text of a subtree: not at all, or the text is the same up to
  the start of the first rewritten list item, whose old text starts with the glyph and
  whose new text starts with the white space of the icon.
\<close>

definition textShift :: "jsstring \<Rightarrow> jsstring \<Rightarrow> bool" where
  "textShift b a =
     (a = b \<or> (\<exists>p w b' a'. b = p @ b' \<and> a = p @ w @ a' \<and> w \<noteq> []
                  \<and> (\<forall>c \<in> set w. isWhiteSpace c) \<and> movedText b'))"

text \<open>Sample documents.\<close>

definition sampleList :: node where
  "sampleList =
     Element ''div'' []
       [Element ''ul'' []
          [Element ''li'' [] [Text (js ''[>] moved'')],
           Element ''li'' [''task-list-item''] [Text (js ''[>] done'')],
           Element ''li'' [] [Text (js ''plain'')]]]"

definition nestedList :: node where
  "nestedList =
     Element ''div'' []
       [Element ''ul'' []
          [Element ''li'' []
             [Text (js ''[>''),
              Element ''ul'' [] [Element ''li'' [] [Text (js ''[>] ]inner'')]]]]]"

definition glyphOnlyList :: node where
  "glyphOnlyList = Element ''ul'' [] [Element ''li'' [] [Text (js ''[>]'')]]"

definition wrappedList :: node where
  "wrappedList =
     Element ''ul'' [] [Element ''li'' [] [Element ''span'' [] [Text (js ''[>] x'')]]]"

definition outerList :: node where
  "outerList =
     Element ''ul'' []
       [Element ''li'' []
          [Text (js ''outer''),
           Element ''ul'' [] [Element ''li'' [] [Text (js ''[>] inner'')]]]]"


section \<open>The repeat rule evaluator\<close>

text \<open>
  Modelled from the spec: the repeat rule and the evaluator \<^verbatim>\<open>nextOccurrence\<close> are in
  modules that are not among the sources. A rule is an interval unit, a count and an
  optional set of weekdays (section 3); weekdays are numbered from 0, Sunday, to 6.
\<close>

datatype intervalUnit = Day | Week | Month

record RepeatRule =
  interval :: intervalUnit
  count :: nat
  weekdays :: "nat list option"

text \<open>
  Modelled from the spec: a calendar date, of the proleptic Gregorian calendar, as
  year, month and day of month.
\<close>

record CalendarDate =
  year :: int
  month :: nat
  day :: nat

text \<open>Modelled from the spec: the calendar that \<^verbatim>\<open>any calendar date\<close> refers to.\<close>

definition leapYear :: "int \<Rightarrow> bool" where
  "leapYear y = ((y mod 4 = 0 \<and> y mod 100 \<noteq> 0) \<or> y mod 400 = 0)"

text \<open>Modelled from the spec: \<^verbatim>\<open>the last valid day of the target month\<close>.\<close>

definition daysInMonth :: "int \<Rightarrow> nat \<Rightarrow> nat" where
  "daysInMonth y m =
     (if m = 2 then (if leapYear y then 29 else 28)
      else if m = 4 \<or> m = 6 \<or> m = 9 \<or> m = 11 then 30 else 31)"

text \<open>Modelled from the spec: the records that are calendar dates.\<close>

definition validDate :: "CalendarDate \<Rightarrow> bool" where
  "validDate d =
     (1 \<le> month d \<and> month d \<le> 12 \<and> 1 \<le> day d \<and> day d \<le> daysInMonth (year d) (month d))"

text \<open>
  Modelled from the spec: \<^verbatim>\<open>strictly after\<close>. \<open>dateBefore a b\<close> says that the date \<open>b\<close> is
  strictly after the date \<open>a\<close>.
\<close>

definition dateBefore :: "CalendarDate \<Rightarrow> CalendarDate \<Rightarrow> bool" where
  "dateBefore a b =
     (year a < year b
      \<or> (year a = year b \<and> (month a < month b \<or> (month a = month b \<and> day a < day b))))"

text \<open>Modelled from the spec: the day after a date.\<close>

definition nextDay :: "CalendarDate \<Rightarrow> CalendarDate" where
  "nextDay d =
     (if day d < daysInMonth (year d) (month d) then d\<lparr>day := day d + 1\<rparr>
      else if month d < 12 then d\<lparr>month := month d + 1, day := 1\<rparr>
      else d\<lparr>year := year d + 1, month := 1, day := 1\<rparr>)"

text \<open>Modelled from the spec: \<^verbatim>\<open>fromDate + N days\<close>.\<close>

fun addDays :: "nat \<Rightarrow> CalendarDate \<Rightarrow> CalendarDate" where
  "addDays 0 d = d"
| "addDays (Suc n) d = addDays n (nextDay d)"

text \<open>
  Modelled from the spec: the weekday of a date, which a rule's weekday set is matched
  against. It is taken from the number of the day, counted from the first of January
  of the year 1, a Monday.
\<close>

definition daysBeforeYear :: "int \<Rightarrow> int" where
  "daysBeforeYear y = 365 * (y - 1) + (y - 1) div 4 - (y - 1) div 100 + (y - 1) div 400"

definition daysBeforeMonth :: "int \<Rightarrow> nat \<Rightarrow> nat" where
  "daysBeforeMonth y m = sum_list (map (daysInMonth y) [1..<m])"

definition dayNumber :: "CalendarDate \<Rightarrow> int" where
  "dayNumber d = daysBeforeYear (year d) + int (daysBeforeMonth (year d) (month d)) + int (day d)"

definition weekday :: "CalendarDate \<Rightarrow> nat" where
  "weekday d = nat (dayNumber d mod 7)"

text \<open>
  Modelled from the spec: \<^verbatim>\<open>the earliest date strictly after fromDate matching one of the
  weekdays\<close>, looked for among the next \<open>k\<close> days; \<open>None\<close> when none of them matches.
\<close>

fun nextWeekday :: "nat \<Rightarrow> nat list \<Rightarrow> CalendarDate \<Rightarrow> CalendarDate option" where
  "nextWeekday 0 ws d = None"
| "nextWeekday (Suc k) ws d =
     (let d' = nextDay d in if weekday d' \<in> set ws then Some d' else nextWeekday k ws d')"

text \<open>
  Modelled from the spec: \<^verbatim>\<open>same day-of-month N months later, clamped to the last valid
  day of the target month\<close>.
\<close>

definition addMonths :: "nat \<Rightarrow> CalendarDate \<Rightarrow> CalendarDate" where
  "addMonths n d =
     (let idx = year d * 12 + int (month d - 1) + int n;
          y = idx div 12;
          m = nat (idx mod 12) + 1
      in \<lparr>year = y, month = m, day = min (day d) (daysInMonth y m)\<rparr>)"

text \<open>
  Modelled from the spec: the specification does not say which rules are valid. Here a
  rule is valid when its count is at least one and its weekday set, when it has one, is
  not empty and holds weekdays only.
\<close>

definition validRule :: "RepeatRule \<Rightarrow> bool" where
  "validRule r =
     (1 \<le> count r
      \<and> (case weekdays r of None \<Rightarrow> True
          | Some ws \<Rightarrow> ws \<noteq> [] \<and> list_all (\<lambda>w. w < 7) ws))"

text \<open>
  Modelled from the spec: \<^verbatim>\<open>nextOccurrence(rule, fromDate)\<close> of section 4.2. The result
  is \<open>None\<close> when the evaluator fails to find a date.
\<close>

definition nextOccurrence :: "RepeatRule \<Rightarrow> CalendarDate \<Rightarrow> CalendarDate option" where
  "nextOccurrence rule fromDate =
     (case interval rule of
        Day \<Rightarrow> Some (addDays (count rule) fromDate)
      | Week \<Rightarrow>
          (case weekdays rule of
             Some ws \<Rightarrow> nextWeekday 7 ws fromDate
           | None \<Rightarrow> Some (addDays (7 * count rule) fromDate))
      | Month \<Rightarrow> Some (addMonths (count rule) fromDate))"

definition monthlyRule :: RepeatRule where
  "monthlyRule = \<lparr>interval = Month, count = 1, weekdays = None\<rparr>"

definition weeklyRule :: RepeatRule where
  "weeklyRule = \<lparr>interval = Week, count = 1, weekdays = Some [1, 5]\<rparr>"

definition lastOfJanuary :: CalendarDate where
  "lastOfJanuary = \<lparr>year = 2023, month = 1, day = 31\<rparr>"

definition aTuesday :: CalendarDate where
  "aTuesday = \<lparr>year = 2026, month = 11, day = 3\<rparr>"


section \<open>Default settings\<close>

text \<open>
  C8 (as amended). For every partial settings object \<open>s\<close>, in \<open>settingsWithDefaults s\<close>
  every property that is present in \<open>s\<close> keeps the value it has in \<open>s\<close>, also when that
  value is \<^verbatim>\<open>undefined\<close>, and every absent property takes its default (tasksHeader
  \<^verbatim>\<open>'## Tasks'\<close>, blankLineAfterHeader true, preserveMovedTasks false, localeOverride
  \<^verbatim>\<open>'system-default'\<close>, weekStart \<^verbatim>\<open>'locale'\<close>). The result is a complete settings value
  exactly when no property of \<open>s\<close> is present with the value \<^verbatim>\<open>undefined\<close>. Applying the
  function to its own result returns that result again.
\<close>

theorem settingsWithDefaults_spread:
  "tasksHeader (settingsWithDefaults s) =
     (case opt_tasksHeader s of Some v \<Rightarrow> v | None \<Rightarrow> Defined ''## Tasks'')
   \<and> blankLineAfterHeader (settingsWithDefaults s) =
     (case opt_blankLineAfterHeader s of Some v \<Rightarrow> v | None \<Rightarrow> Defined True)
   \<and> preserveMovedTasks (settingsWithDefaults s) =
     (case opt_preserveMovedTasks s of Some v \<Rightarrow> v | None \<Rightarrow> Defined False)
   \<and> localeOverride (settingsWithDefaults s) =
     (case opt_localeOverride s of Some v \<Rightarrow> v | None \<Rightarrow> Defined ''system-default'')
   \<and> weekStart (settingsWithDefaults s) =
     (case opt_weekStart s of Some v \<Rightarrow> v | None \<Rightarrow> Defined ''locale'')
   \<and> isComplete (settingsWithDefaults s) = (\<not> hasUndefined s)
   \<and> settingsWithDefaults (asPartial (settingsWithDefaults s)) = settingsWithDefaults s"
proof -
  have fields:
    "tasksHeader (settingsWithDefaults s) =
       (case opt_tasksHeader s of Some v \<Rightarrow> v | None \<Rightarrow> Defined ''## Tasks'')"
    "blankLineAfterHeader (settingsWithDefaults s) =
       (case opt_blankLineAfterHeader s of Some v \<Rightarrow> v | None \<Rightarrow> Defined True)"
    "preserveMovedTasks (settingsWithDefaults s) =
       (case opt_preserveMovedTasks s of Some v \<Rightarrow> v | None \<Rightarrow> Defined False)"
    "localeOverride (settingsWithDefaults s) =
       (case opt_localeOverride s of Some v \<Rightarrow> v | None \<Rightarrow> Defined ''system-default'')"
    "weekStart (settingsWithDefaults s) =
       (case opt_weekStart s of Some v \<Rightarrow> v | None \<Rightarrow> Defined ''locale'')"
    by (simp_all add: settingsWithDefaults_def defaultSettings_def spread_def
        split: option.split)
  have complete: "isComplete (settingsWithDefaults s) = (\<not> hasUndefined s)"
    unfolding isComplete_def hasUndefined_def fields
    by (simp split: option.split)
  have again: "settingsWithDefaults (asPartial (settingsWithDefaults s)) = settingsWithDefaults s"
    by (simp add: settingsWithDefaults_def asPartial_def spread_def)
  from fields complete again show ?thesis by simp
qed

theorem settingsWithDefaults_spread_witness:
  "tasksHeader (settingsWithDefaults sampleSettings) = Defined ''# Todo''
   \<and> blankLineAfterHeader (settingsWithDefaults sampleSettings) = Defined True
   \<and> preserveMovedTasks (settingsWithDefaults sampleSettings) = Defined True
   \<and> localeOverride (settingsWithDefaults sampleSettings) = Defined ''system-default''
   \<and> weekStart (settingsWithDefaults sampleSettings) = Defined ''locale''
   \<and> isComplete (settingsWithDefaults sampleSettings)
   \<and> settingsWithDefaults (asPartial (settingsWithDefaults sampleSettings)) =
       settingsWithDefaults sampleSettings"
  using settingsWithDefaults_spread [of sampleSettings]
  by (simp add: sampleSettings_def hasUndefined_def)

text \<open>
  The result is not always a complete settings value: a tasks header that is present
  and \<^verbatim>\<open>undefined\<close> replaces the default.
\<close>

theorem settingsWithDefaults_undefined_header:
  "tasksHeader (settingsWithDefaults undefinedHeader) = Undefined
   \<and> \<not> isComplete (settingsWithDefaults undefinedHeader)"
  by (simp add: settingsWithDefaults_def defaultSettings_def spread_def undefinedHeader_def
      isComplete_def)


section \<open>Focus changes\<close>

text \<open>
  C2. On a focus-change notification that carries a valid newly focused note (not null,
  basename not empty), the callback calls \<^verbatim>\<open>processFile\<close> on the previously focused note,
  when there is one, and then on the newly focused note: the call for the previous note
  is made first. The new note becomes the remembered one. This holds whatever
  \<^verbatim>\<open>processFile\<close> does.
\<close>

theorem fileOpen_scans_previous_then_new:
  assumes "basename f \<noteq> []" and "lastFile this = Some l"
  shows "taskHandler (fileOpen processFile (Some f) this) =
           processFile f (processFile l (taskHandler this))
         \<and> lastFile (fileOpen processFile (Some f) this) = Some f"
  using assms by (simp add: fileOpen_def callProcessFile_def)

theorem fileOpen_scans_previous_then_new_witness:
  "taskHandler
     (fileOpen logCall (Some \<lparr>path = ''b.md'', basename = ''b''\<rparr>)
        \<lparr>lastFile = Some \<lparr>path = ''a.md'', basename = ''a''\<rparr>, taskHandler = []\<rparr>)
   = [\<lparr>path = ''a.md'', basename = ''a''\<rparr>, \<lparr>path = ''b.md'', basename = ''b''\<rparr>]"
  using fileOpen_scans_previous_then_new
    [of "\<lparr>path = ''b.md'', basename = ''b''\<rparr>"
        "\<lparr>lastFile = Some \<lparr>path = ''a.md'', basename = ''a''\<rparr>, taskHandler = []\<rparr>"
        "\<lparr>path = ''a.md'', basename = ''a''\<rparr>" logCall]
  by (simp add: logCall_def)

text \<open>
  C9. A focus-change event whose file is null or has an empty basename is ignored: the
  plugin is left as it was, so no note is scanned and the remembered note is unchanged.
  On the first valid event after load, when no note is remembered, \<^verbatim>\<open>processFile\<close> is
  called once, on the newly focused note.
\<close>

theorem fileOpen_ignores_invalid:
  "fileOpen processFile None this = this
   \<and> (basename f = [] \<longrightarrow> fileOpen processFile (Some f) this = this)
   \<and> (basename f \<noteq> [] \<and> lastFile this = None \<longrightarrow>
        taskHandler (fileOpen processFile (Some f) this) = processFile f (taskHandler this)
        \<and> lastFile (fileOpen processFile (Some f) this) = Some f)"
  by (simp add: fileOpen_def callProcessFile_def)

theorem fileOpen_ignores_invalid_witness:
  "fileOpen logCall (Some \<lparr>path = ''.md'', basename = ''''\<rparr>)
     \<lparr>lastFile = Some \<lparr>path = ''a.md'', basename = ''a''\<rparr>, taskHandler = []\<rparr>
   = \<lparr>lastFile = Some \<lparr>path = ''a.md'', basename = ''a''\<rparr>, taskHandler = []\<rparr>
   \<and> taskHandler (fileOpen logCall (Some \<lparr>path = ''a.md'', basename = ''a''\<rparr>) (onloadState []))
     = [\<lparr>path = ''a.md'', basename = ''a''\<rparr>]"
  using fileOpen_ignores_invalid
    [of logCall "\<lparr>lastFile = Some \<lparr>path = ''a.md'', basename = ''a''\<rparr>, taskHandler = []\<rparr>"
        "\<lparr>path = ''.md'', basename = ''''\<rparr>"]
    fileOpen_ignores_invalid
    [of logCall "onloadState []" "\<lparr>path = ''a.md'', basename = ''a''\<rparr>"]
  by (simp add: logCall_def onloadState_def)


section \<open>Serialized scans: one at a time\<close>











section \<open>The post-processor: the loop as one pass\<close>


lemma lis_movedIcon: "lis movedIcon = []"
  by (simp add: movedIcon_def)

lemma lisOf_sliceFirstText: "lisOf (sliceFirstText ks) = lisOf ks"
  by (induction ks rule: sliceFirstText.induct) simp_all

lemma markMoved_Element:
  "markMoved (Element t c ks) =
     Element t (if ''task-list-item'' \<in> set c then c else c @ [''task-list-item''])
       (movedIcon # sliceFirstText ks)"
  by (simp add: markMoved_def)

lemma length_lis_markMoved: "length (lis (markMoved x)) = length (lis x)"
  by (cases x) (simp_all add: markMoved_def lis_movedIcon lisOf_sliceFirstText)

lemma length_lis_modifyNth:
  "length (lis (modifyNth ''li'' markMoved i n)) = length (lis n)"
  "length (lisOf (modifyNthOf ''li'' markMoved i ns)) = length (lisOf ns)"
  by (induction "''li''" markMoved i n and "''li''" markMoved i ns
      rule: modifyNth_modifyNthOf.induct)
     (simp_all add: length_lis_markMoved markMoved_Element lis_movedIcon lisOf_sliceFirstText Let_def)


lemma sliceFirstText_Element_Cons:
  "sliceFirstText (Element t c ks # rest) = Element t c ks # sliceFirstText rest"
  by simp

lemma sliceFirstText_modified_Cons:
  "sliceFirstText (modifyNth ''li'' markMoved i (Element t c ks) # rest) =
     modifyNth ''li'' markMoved i (Element t c ks) # sliceFirstText rest"
  by (simp add: markMoved_Element)

lemma modifyNthOf_sliceFirstText:
  "modifyNthOf ''li'' markMoved i (sliceFirstText ks) =
     sliceFirstText (modifyNthOf ''li'' markMoved i ks)"
proof (induction ks arbitrary: i)
  case Nil
  show ?case by simp
next
  case (Cons k ks)
  show ?case
  proof (cases k)
    case (Text s)
    then show ?thesis by simp
  next
    case (Comment s)
    with Cons show ?thesis by simp
  next
    case (Element t c cs)
    show ?thesis
    proof (cases "i < length (lis k)")
      case True
      then show ?thesis
        unfolding Element sliceFirstText_Element_Cons
        by (simp only: modifyNthOf.simps Let_def if_True sliceFirstText_modified_Cons)
    next
      case False
      then show ?thesis
        unfolding Element sliceFirstText_Element_Cons
        by (simp only: modifyNthOf.simps Let_def if_False sliceFirstText_Element_Cons Cons.IH)
    qed
  qed
qed

lemma fold_modifyNthOf_icon:
  "fold (modifyNthOf ''li'' markMoved) is (movedIcon # sliceFirstText ks) =
     movedIcon # sliceFirstText (fold (modifyNthOf ''li'' markMoved) is ks)"
  by (induction "is" arbitrary: ks) (simp_all add: lis_movedIcon modifyNthOf_sliceFirstText)

lemma fold_modifyNth_li:
  "fold (modifyNth ''li'' markMoved) (map Suc is) (Element ''li'' c ks) =
     Element ''li'' c (fold (modifyNthOf ''li'' markMoved) is ks)"
  by (induction "is" arbitrary: ks) simp_all

lemma fold_modifyNth_other:
  "t \<noteq> ''li'' \<Longrightarrow>
   fold (modifyNth ''li'' markMoved) is (Element t c ks) =
     Element t c (fold (modifyNthOf ''li'' markMoved) is ks)"
  by (induction "is" arbitrary: ks) simp_all

lemma fold_modifyNthOf_head:
  "\<forall>i \<in> set is. i < length (lis n) \<Longrightarrow>
   fold (modifyNthOf ''li'' markMoved) is (n # ns) =
     fold (modifyNth ''li'' markMoved) is n # ns"
  by (induction "is" arbitrary: n) (simp_all add: length_lis_modifyNth)

lemma fold_modifyNthOf_tail:
  "fold (modifyNthOf ''li'' markMoved) (map (\<lambda>i. i + length (lis n)) is) (n # ns) =
     n # fold (modifyNthOf ''li'' markMoved) is ns"
  by (induction "is" arbitrary: ns) simp_all

lemma length_lis_fold:
  "length (lis (fold (modifyNth ''li'' markMoved) is n)) = length (lis n)"
  by (induction "is" arbitrary: n) (simp_all add: length_lis_modifyNth)

lemma filter_upt_Suc:
  "filter P [0..<Suc m] = (if P 0 then [0] else []) @ map Suc (filter (\<lambda>i. P (Suc i)) [0..<m])"
proof -
  have "[0..<Suc m] = 0 # map Suc [0..<m]"
    by (simp only: upt_conv_Cons [OF zero_less_Suc] map_Suc_upt)
  then show ?thesis by (simp only: filter.simps filter_map comp_def) simp
qed

lemma filter_upt_add:
  "filter P [0..<c + m] =
     filter P [0..<c] @ map (\<lambda>i. i + c) (filter (\<lambda>i. P (i + c)) [0..<m])"
proof -
  have "[0..<c + m] = [0..<c] @ [c..<c + m]"
    by (rule upt_add_eq_append) simp
  also have "[c..<c + m] = map (\<lambda>i. i + c) [0..<m]"
    by (simp only: map_add_upt add.commute)
  finally show ?thesis by (simp only: filter_append filter_map comp_def)
qed

lemma movedIndices_Cons:
  "movedIndices (x # xs) = (if isMovedItem x then [0] else []) @ map Suc (movedIndices xs)"
  unfolding movedIndices_def length_Cons filter_upt_Suc by simp

lemma movedIndices_append:
  "movedIndices (xs @ ys) = movedIndices xs @ map (\<lambda>i. i + length xs) (movedIndices ys)"
proof -
  have "filter (\<lambda>i. isMovedItem ((xs @ ys) ! i)) [0..<length xs] =
        filter (\<lambda>i. isMovedItem (xs ! i)) [0..<length xs]"
    by (rule filter_cong) (simp_all add: nth_append)
  then show ?thesis
    unfolding movedIndices_def length_append filter_upt_add by (simp add: nth_append)
qed

lemma movedIndices_bound: "i \<in> set (movedIndices xs) \<Longrightarrow> i < length xs"
  by (simp add: movedIndices_def)

lemma fold_modifyNthOf_rendered:
  assumes "\<And>n. n \<in> set ns \<Longrightarrow>
             fold (modifyNth ''li'' markMoved) (movedIndices (lis n)) n = rendered n"
  shows "fold (modifyNthOf ''li'' markMoved) (movedIndices (lisOf ns)) ns = map rendered ns"
  using assms
proof (induction ns)
  case Nil
  show ?case by (simp add: movedIndices_def)
next
  case (Cons n ns)
  have head: "fold (modifyNthOf ''li'' markMoved) (movedIndices (lis n)) (n # ns) =
              rendered n # ns"
    using fold_modifyNthOf_head [of "movedIndices (lis n)" n ns] Cons.prems [of n]
    by (simp add: movedIndices_bound)
  have len: "length (lis (rendered n)) = length (lis n)"
    using length_lis_fold [of "movedIndices (lis n)" n] Cons.prems [of n] by simp
  have tail: "fold (modifyNthOf ''li'' markMoved)
                (map (\<lambda>i. i + length (lis n)) (movedIndices (lisOf ns))) (rendered n # ns) =
              rendered n # map rendered ns"
    using fold_modifyNthOf_tail [of "rendered n" "movedIndices (lisOf ns)" ns] Cons
    by (simp add: len)
  show ?case
    by (simp add: movedIndices_append head tail)
qed

lemma fold_modifyNth_rendered:
  "fold (modifyNth ''li'' markMoved) (movedIndices (lis n)) n = rendered n"
proof (induction n)
  case (Text s)
  show ?case by (simp add: movedIndices_def)
next
  case (Comment s)
  show ?case by (simp add: movedIndices_def)
next
  case (Element t c ks)
  have kids: "fold (modifyNthOf ''li'' markMoved) (movedIndices (lisOf ks)) ks = map rendered ks"
    by (rule fold_modifyNthOf_rendered) (simp add: Element.IH)
  show ?case
  proof (cases "t = ''li''")
    case False
    then show ?thesis by (simp add: fold_modifyNth_other kids)
  next
    case True
    show ?thesis
    proof (cases "isMovedItem (Element t c ks)")
      case False
      with True show ?thesis
        by (simp add: movedIndices_Cons fold_modifyNth_li kids)
    next
      case moved: True
      with True show ?thesis
        by (simp add: movedIndices_Cons markMoved_Element fold_modifyNth_li
            fold_modifyNthOf_icon kids)
    qed
  qed
qed

lemma renderMovedTasks_rendered:
  "renderMovedTasks el =
     (case el of Element t c ks \<Rightarrow> Element t c (map rendered ks) | _ \<Rightarrow> el)"
proof (cases el)
  case (Element t c ks)
  have "fold (modifyDescendant ''li'' markMoved) is (Element t c ks) =
        Element t c (fold (modifyNthOf ''li'' markMoved) is ks)" for "is"
    by (induction "is" arbitrary: ks) (simp_all add: modifyDescendant_def)
  then show ?thesis
    using fold_modifyNthOf_rendered [of ks] fold_modifyNth_rendered
    by (simp add: Element renderMovedTasks_def getElementsByTagName_def movedIndices_def)
qed (simp_all add: renderMovedTasks_def getElementsByTagName_def)


lemma js_glyph: "js ''[>]'' = [0x5B, 0x3E, 0x5D]"
  by (simp add: js_def)

lemma glyph_not_space:
  "\<not> isWhiteSpace 0x5B" "\<not> isWhiteSpace 0x3E" "\<not> isWhiteSpace 0x5D"
  by (simp_all add: isWhiteSpace_def)

lemma movedText_iff:
  "movedText s = (\<exists>u r. s = u @ [0x5B, 0x3E, 0x5D] @ r \<and> (\<forall>c \<in> set u. isWhiteSpace c))"
proof
  assume m: "movedText s"
  let ?u = "takeWhile isWhiteSpace s"
  have s: "s = ?u @ dropWhile isWhiteSpace s" by simp
  from m have "take 3 (dropWhile isWhiteSpace s) = [0x5B, 0x3E, 0x5D]"
    by (simp add: movedText_def startsWith_def trimLeft_def js_glyph numeral_3_eq_3)
  then have "dropWhile isWhiteSpace s = [0x5B, 0x3E, 0x5D] @ drop 3 (dropWhile isWhiteSpace s)"
    by (metis append_take_drop_id)
  with s have "s = ?u @ [0x5B, 0x3E, 0x5D] @ drop 3 (dropWhile isWhiteSpace s)"
    by simp
  moreover have "\<forall>c \<in> set ?u. isWhiteSpace c"
    by (auto dest: set_takeWhileD)
  ultimately show "\<exists>u r. s = u @ [0x5B, 0x3E, 0x5D] @ r \<and> (\<forall>c \<in> set u. isWhiteSpace c)"
    by blast
next
  assume "\<exists>u r. s = u @ [0x5B, 0x3E, 0x5D] @ r \<and> (\<forall>c \<in> set u. isWhiteSpace c)"
  then obtain u r where s: "s = u @ [0x5B, 0x3E, 0x5D] @ r" and u: "\<forall>c \<in> set u. isWhiteSpace c"
    by blast
  have "dropWhile isWhiteSpace s = [0x5B, 0x3E, 0x5D] @ r"
    unfolding s using u by (simp add: dropWhile_append2 glyph_not_space)
  then show "movedText s"
    by (simp add: movedText_def startsWith_def trimLeft_def js_glyph)
qed

lemma movedText_append: "movedText s \<Longrightarrow> movedText (s @ t)"
  unfolding movedText_iff by (metis append.assoc)


lemma movedText_take:
  "movedText s = (take (Suc (Suc (Suc 0))) (dropWhile isWhiteSpace s) = [0x5B, 0x3E, 0x5D])"
  by (simp add: movedText_def startsWith_def trimLeft_def js_glyph)

lemma textShift_moved:
  assumes shift: "textShift b a" and moved: "movedText a"
  shows "movedText b"
proof (cases "a = b")
  case True
  with moved show ?thesis by simp
next
  case False
  with shift obtain p w b' a' where
    b: "b = p @ b'" and a: "a = p @ w @ a'" and w: "w \<noteq> []"
    and ws: "\<forall>c \<in> set w. isWhiteSpace c" and b': "movedText b'"
    unfolding textShift_def by blast
  from w ws obtain w0 w' where w0: "w = w0 # w'" "isWhiteSpace w0"
    by (cases w) auto
  show ?thesis
  proof (cases "\<forall>c \<in> set p. isWhiteSpace c")
    case True
    then have "dropWhile isWhiteSpace b = dropWhile isWhiteSpace b'"
      unfolding b by (simp add: dropWhile_append2)
    with b' show ?thesis by (simp add: movedText_take)
  next
    case False
    then obtain x where x: "x \<in> set p" "\<not> isWhiteSpace x" by blast
    let ?q = "dropWhile isWhiteSpace p"
    have da: "dropWhile isWhiteSpace a = ?q @ w0 # w' @ a'"
      unfolding a w0 using x by (simp add: dropWhile_append1)
    have db: "dropWhile isWhiteSpace b = ?q @ b'"
      unfolding b using x by (simp add: dropWhile_append1)
    have q: "?q \<noteq> []"
      using x by (auto simp: dropWhile_eq_Nil_conv)
    from moved have ta: "take (Suc (Suc (Suc 0))) (?q @ w0 # w' @ a') = [0x5B, 0x3E, 0x5D]"
      by (simp add: movedText_take da)
    from q obtain x1 q1 where q1: "?q = x1 # q1" by (cases ?q) auto
    show ?thesis
    proof (cases q1)
      case Nil
      with ta q1 w0 show ?thesis by (simp add: glyph_not_space)
    next
      case (Cons x2 q2)
      note c2 = this
      show ?thesis
      proof (cases q2)
        case Nil
        with ta q1 c2 w0 show ?thesis by (simp add: glyph_not_space)
      next
        case (Cons x3 q3)
        with ta q1 c2 show ?thesis by (simp add: movedText_take db)
      qed
    qed
  qed
qed

lemma textShift_refl: "textShift s s"
  by (simp add: textShift_def)

lemma textShift_append:
  assumes "textShift b1 a1" and "textShift b2 a2"
  shows "textShift (b1 @ b2) (a1 @ a2)"
proof (cases "a1 = b1")
  case same1: True
  show ?thesis
  proof (cases "a2 = b2")
    case True
    with same1 show ?thesis by (simp add: textShift_def)
  next
    case False
    with assms(2) obtain p w b' a' where
      "b2 = p @ b'" "a2 = p @ w @ a'" "w \<noteq> []" "\<forall>c \<in> set w. isWhiteSpace c" "movedText b'"
      unfolding textShift_def by blast
    then have "b1 @ b2 = (b1 @ p) @ b' \<and> a1 @ a2 = (b1 @ p) @ w @ a' \<and> w \<noteq> []
               \<and> (\<forall>c \<in> set w. isWhiteSpace c) \<and> movedText b'"
      using same1 by simp
    then show ?thesis unfolding textShift_def by blast
  qed
next
  case False
  with assms(1) obtain p w b' a' where
    "b1 = p @ b'" "a1 = p @ w @ a'" "w \<noteq> []" "\<forall>c \<in> set w. isWhiteSpace c" "movedText b'"
    unfolding textShift_def by blast
  then have "b1 @ b2 = p @ (b' @ b2) \<and> a1 @ a2 = p @ w @ (a' @ a2) \<and> w \<noteq> []
             \<and> (\<forall>c \<in> set w. isWhiteSpace c) \<and> movedText (b' @ b2)"
    by (simp add: movedText_append)
  then show ?thesis unfolding textShift_def by blast
qed

lemma textShift_concat:
  assumes "\<And>k. k \<in> set ks \<Longrightarrow> textShift (f k) (g k)"
  shows "textShift (concat (map f ks)) (concat (map g ks))"
  using assms by (induction ks) (simp_all add: textShift_refl textShift_append)

lemma descendantText_movedIcon:
  "descendantText movedIcon \<noteq> []" "\<forall>c \<in> set (descendantText movedIcon). isWhiteSpace c"
  by (simp_all add: movedIcon_def js_def isWhiteSpace_def)

lemma textShift_rendered: "textShift (descendantText n) (descendantText (rendered n))"
proof (induction n)
  case (Text s)
  show ?case by (simp add: textShift_refl)
next
  case (Comment s)
  show ?case by (simp add: textShift_refl)
next
  case (Element t c ks)
  show ?case
  proof (cases "t = ''li'' \<and> isMovedItem (Element t c ks)")
    case False
    have "textShift (concat (map descendantText ks))
            (concat (map (\<lambda>k. descendantText (rendered k)) ks))"
      by (rule textShift_concat) (rule Element.IH)
    with False show ?thesis by (auto simp: comp_def)
  next
    case True
    then have "movedText (descendantText (Element t c ks))"
      by (simp add: isMovedItem_def movedText_def)
    moreover have "\<exists>a'. descendantText (rendered (Element t c ks)) =
                     [] @ descendantText movedIcon @ a'"
      using True by (auto simp: markMoved_Element)
    ultimately show ?thesis
      unfolding textShift_def using descendantText_movedIcon
      by (metis append_Nil)
  qed
qed

lemma rendered_movedIcon: "rendered movedIcon = movedIcon"
  by (simp add: movedIcon_def)

lemma map_rendered_sliceFirstText:
  "map rendered (sliceFirstText ks) = sliceFirstText (map rendered ks)"
proof (induction ks)
  case Nil
  show ?case by simp
next
  case (Cons k ks)
  then show ?case by (cases k) (simp_all add: markMoved_Element)
qed

lemma rendered_idem: "rendered (rendered n) = rendered n"
proof (induction n)
  case (Text s)
  show ?case by simp
next
  case (Comment s)
  show ?case by simp
next
  case (Element t c ks)
  have kids: "map rendered (map rendered ks) = map rendered ks"
    using Element.IH by simp
  show ?case
  proof (cases "t = ''li'' \<and> isMovedItem (Element t c ks)")
    case True
    have marked: "\<not> isMovedItem (Element t (if ''task-list-item'' \<in> set c then c
                     else c @ [''task-list-item'']) xs)" for xs
      by (simp add: isMovedItem_def hasClass_def)
    from True have "rendered (Element t c ks) =
        Element t (if ''task-list-item'' \<in> set c then c else c @ [''task-list-item''])
          (movedIcon # sliceFirstText (map rendered ks))"
      by (auto simp: markMoved_Element)
    then show ?thesis
      using marked kids
      by (simp add: rendered_movedIcon map_rendered_sliceFirstText del: map_map)
  next
    case False
    then have r: "rendered (Element t c ks) = Element t c (map rendered ks)"
      by auto
    have "\<not> (t = ''li'' \<and> isMovedItem (Element t c (map rendered ks)))"
    proof
      assume m: "t = ''li'' \<and> isMovedItem (Element t c (map rendered ks))"
      then have "movedText (descendantText (rendered (Element t c ks)))"
        unfolding r by (simp add: isMovedItem_def movedText_def)
      then have "movedText (descendantText (Element t c ks))"
        using textShift_rendered textShift_moved by blast
      with m False show False
        by (simp add: isMovedItem_def movedText_def hasClass_def)
    qed
    then show ?thesis
      unfolding r using kids by (auto simp del: map_map)
  qed
qed

text \<open>
  C10. The post-processor is idempotent: applied to its own output it changes nothing.
  An item it has rewritten carries the task-list mark and is skipped, so its text is
  sliced at most once; an item it has left alone is left alone again, because the text
  of an unmarked item starts with the glyph after the pass only if it did so before
  (the icon put in front of a rewritten nested item starts with white space).
\<close>

theorem renderMovedTasks_idempotent:
  "renderMovedTasks (renderMovedTasks el) = renderMovedTasks el"
  by (cases el) (simp_all add: renderMovedTasks_rendered rendered_idem)

theorem renderMovedTasks_idempotent_witness:
  "renderMovedTasks (renderMovedTasks nestedList) =
     Element ''div'' []
       [Element ''ul'' []
          [Element ''li'' []
             [Text (js ''[>''),
              Element ''ul'' []
                [Element ''li'' [''task-list-item''] [movedIcon, Text (js '']inner'')]]]]]"
proof -
  have inner: "isMovedItem (Element ''li'' [] [Text (js ''[>] ]inner'')])"
    by (simp add: isMovedItem_def hasClass_def startsWith_def trimLeft_def js_def
        isWhiteSpace_def)
  have outer: "\<not> isMovedItem (Element ''li'' []
      [Text (js ''[>''), Element ''ul'' [] [Element ''li'' [] [Text (js ''[>] ]inner'')]]])"
    by (simp add: isMovedItem_def hasClass_def startsWith_def trimLeft_def js_def
        isWhiteSpace_def)
  have sliced: "drop 4 (js ''[>] ]inner'') = js '']inner''"
    by (simp add: js_def)
  have "renderMovedTasks nestedList =
     Element ''div'' []
       [Element ''ul'' []
          [Element ''li'' []
             [Text (js ''[>''),
              Element ''ul'' []
                [Element ''li'' [''task-list-item''] [movedIcon, Text (js '']inner'')]]]]]"
    by (simp add: renderMovedTasks_rendered nestedList_def inner outer markMoved_def sliced)
  with renderMovedTasks_idempotent [of nestedList] show ?thesis by simp
qed

lemma lis_rendered: "lis (rendered n) = map rendered (lis n)"
proof (induction n)
  case (Element t c ks)
  have "lisOf (map rendered ks) = map rendered (lisOf ks)"
    using Element.IH by (induction ks) simp_all
  then show ?case
    by (simp add: markMoved_Element lis_movedIcon lisOf_sliceFirstText)
qed simp_all

lemma lisOf_rendered: "lisOf (map rendered ks) = map rendered (lisOf ks)"
  by (induction ks) (simp_all add: lis_rendered)

lemma getElementsByTagName_rendered:
  "getElementsByTagName (renderMovedTasks el) ''li'' = map rendered (getElementsByTagName el ''li'')"
  by (cases el)
     (simp_all add: renderMovedTasks_rendered getElementsByTagName_def lisOf_rendered
        del: map_map)

lemma cutFirstText_Cons:
  "cutFirstText (k # ks) =
     (if nodeType k = 3 then Text (drop 4 (getText k)) # ks else k # cutFirstText ks)"
  by (cases "dropWhile (\<lambda>n. nodeType n \<noteq> 3) ks")
     (simp_all add: cutFirstText_def del: dropWhile_eq_Nil_conv)

lemma sliceFirstText_cutFirstText: "sliceFirstText ks = cutFirstText ks"
proof (induction ks)
  case Nil
  show ?case by (simp add: cutFirstText_def)
next
  case (Cons k ks)
  then show ?case by (cases k) (simp_all add: cutFirstText_Cons)
qed

lemma rendered_rewriteMoved: "rendered n = rewriteMoved n"
proof (induction n)
  case (Element t c ks)
  have kids: "map rendered ks = map rewriteMoved ks"
    using Element.IH by simp
  show ?case
  proof (cases "t = ''li'' \<and> isMovedItem (Element t c ks)")
    case True
    then have "''task-list-item'' \<notin> set c"
      by (simp add: isMovedItem_def hasClass_def)
    with True show ?thesis
      by (simp add: kids markMoved_Element sliceFirstText_cutFirstText isMovedItem_def
          hasClass_def)
  next
    case False
    then show ?thesis
      by (auto simp: kids isMovedItem_def)
  qed
qed simp_all

lemma rewriteMoved_unchanged:
  "\<forall>y \<in> set (lis x). \<not> isMovedItem y \<Longrightarrow> rewriteMoved x = x"
proof (induction x)
  case (Element t c ks)
  have "map rewriteMoved ks = ks"
  proof (rule map_idI)
    fix k assume k: "k \<in> set ks"
    with Element.prems have "\<forall>y \<in> set (lis k). \<not> isMovedItem y"
      by auto
    with k show "rewriteMoved k = k" by (rule Element.IH)
  qed
  moreover from Element.prems
  have "\<not> (t = ''li'' \<and> isMovedItem (Element t c ks))"
    by auto
  ultimately show ?case
    by (auto simp: isMovedItem_def)
qed simp_all

text \<open>
  C1 (as amended). The post-processor changes the rendered element in this way and in no
  other: every list item whose text, trimmed on the left, starts with the moved glyph
  and which is not marked as a task-list item gets the mark added to its class list,
  the icon, an \<^verbatim>\<open>svg\<close> element, as its new first child, and \<^verbatim>\<open>slice(4)\<close> on its first child
  that is a text node, which removes the first four code units of that node, or all of
  them when it has fewer, and nothing when no child is a text node. Every other node
  keeps its tag, its class list and its children; list items nested inside a list item
  are list items of the element and are rewritten by the same rule, so a list item
  is left exactly as it was when neither it nor a list item inside it is rewritten.
  The list items after the pass are, in order, the list items before it, rewritten.
\<close>

theorem renderMovedTasks_rewrites_moved_items:
  "renderMovedTasks el =
     (case el of Element t c ks \<Rightarrow> Element t c (map rewriteMoved ks) | _ \<Rightarrow> el)
   \<and> getElementsByTagName (renderMovedTasks el) ''li'' =
       map rewriteMoved (getElementsByTagName el ''li'')
   \<and> (\<forall>x. (\<forall>y \<in> set (elementsByTagName ''li'' x). \<not> isMovedItem y) \<longrightarrow> rewriteMoved x = x)
   \<and> movedIcon =
     Element ''svg'' [''slated-moved-icon'']
       [Text (js [CHR 0x0A, CHR '' '', CHR '' '']),
        Element ''g'' []
          [Text (js [CHR 0x0A, CHR '' '', CHR '' '', CHR '' '', CHR '' '']),
           Element ''path'' [] [],
           Text (js [CHR 0x0A, CHR '' '', CHR '' '', CHR '' '', CHR '' '']),
           Element ''path'' [] [],
           Text (js [CHR 0x0A, CHR '' '', CHR '' ''])],
        Text (js [CHR 0x0A])]"
proof -
  have tree: "renderMovedTasks el =
      (case el of Element t c ks \<Rightarrow> Element t c (map rewriteMoved ks) | _ \<Rightarrow> el)"
    by (cases el) (simp_all add: renderMovedTasks_rendered rendered_rewriteMoved)
  have items: "getElementsByTagName (renderMovedTasks el) ''li'' =
      map rewriteMoved (getElementsByTagName el ''li'')"
    using getElementsByTagName_rendered [of el]
    by (simp add: rendered_rewriteMoved [abs_def])
  have same: "\<forall>x. (\<forall>y \<in> set (elementsByTagName ''li'' x). \<not> isMovedItem y) \<longrightarrow>
      rewriteMoved x = x"
    by (simp add: rewriteMoved_unchanged)
  have icon: "movedIcon =
     Element ''svg'' [''slated-moved-icon'']
       [Text (js [CHR 0x0A, CHR '' '', CHR '' '']),
        Element ''g'' []
          [Text (js [CHR 0x0A, CHR '' '', CHR '' '', CHR '' '', CHR '' '']),
           Element ''path'' [] [],
           Text (js [CHR 0x0A, CHR '' '', CHR '' '', CHR '' '', CHR '' '']),
           Element ''path'' [] [],
           Text (js [CHR 0x0A, CHR '' '', CHR '' ''])],
        Text (js [CHR 0x0A])]"
    by (simp add: movedIcon_def)
  from tree items same icon show ?thesis by (intro conjI)
qed

theorem renderMovedTasks_rewrites_moved_items_witness:
  "renderMovedTasks sampleList =
     Element ''div'' []
       [Element ''ul'' []
          [Element ''li'' [''task-list-item'']
             [Element ''svg'' [''slated-moved-icon'']
       [Text (js [CHR 0x0A, CHR '' '', CHR '' '']),
        Element ''g'' []
          [Text (js [CHR 0x0A, CHR '' '', CHR '' '', CHR '' '', CHR '' '']),
           Element ''path'' [] [],
           Text (js [CHR 0x0A, CHR '' '', CHR '' '', CHR '' '', CHR '' '']),
           Element ''path'' [] [],
           Text (js [CHR 0x0A, CHR '' '', CHR '' ''])],
        Text (js [CHR 0x0A])],
              Text (js ''moved'')],
           Element ''li'' [''task-list-item''] [Text (js ''[>] done'')],
           Element ''li'' [] [Text (js ''plain'')]]]
   \<and> getElementsByTagName (renderMovedTasks outerList) ''li'' =
     [Element ''li'' []
        [Text (js ''outer''),
         Element ''ul'' []
           [Element ''li'' [''task-list-item''] [movedIcon, Text (js ''inner'')]]],
      Element ''li'' [''task-list-item''] [movedIcon, Text (js ''inner'')]]"
  using renderMovedTasks_rewrites_moved_items [of sampleList]
    renderMovedTasks_rewrites_moved_items [of outerList]
  by (simp add: sampleList_def outerList_def getElementsByTagName_def hasClass_def
      startsWith_def trimLeft_def isWhiteSpace_def cutFirstText_def js_def movedIcon_def)

text \<open>
  The removal is not always of four code units, and another list item is not always
  left unchanged: a list item whose only text is the glyph loses three code units; a
  list item whose text is inside a \<^verbatim>\<open>span\<close> is marked and gets the icon while the glyph
  stays; and a list item that is not rewritten has its nested list item rewritten
  inside it.
\<close>

theorem renderMovedTasks_not_exactly_four:
  "renderMovedTasks glyphOnlyList =
     Element ''ul'' [] [Element ''li'' [''task-list-item''] [movedIcon, Text []]]
   \<and> length (js ''[>]'') \<noteq> length ([] :: jsstring) + 4
   \<and> renderMovedTasks wrappedList =
     Element ''ul'' []
       [Element ''li'' [''task-list-item'']
          [movedIcon, Element ''span'' [] [Text (js ''[>] x'')]]]
   \<and> \<not> isMovedItem (getElementsByTagName outerList ''li'' ! 0)
   \<and> getElementsByTagName (renderMovedTasks outerList) ''li'' ! 0 \<noteq>
       getElementsByTagName outerList ''li'' ! 0"
  by (simp add: renderMovedTasks_rendered glyphOnlyList_def wrappedList_def outerList_def
      getElementsByTagName_def isMovedItem_def markMoved_def hasClass_def startsWith_def
      trimLeft_def isWhiteSpace_def js_def)


section \<open>The repeat rule evaluator: totality\<close>

lemma div_pred:
  fixes y k :: int
  assumes "0 < k"
  shows "y div k = (y - 1) div k + (if y mod k = 0 then 1 else 0)"
proof (cases "y mod k = 0")
  case True
  have "y = k * (y div k) + y mod k" by simp
  with True have "y = k * (y div k)" by simp
  then have "y - 1 = k * (y div k - 1) + (k - 1)"
    by (simp add: algebra_simps)
  then have "(y - 1) div k = y div k - 1"
    using assms by (intro int_div_pos_eq [where r = "k - 1"]) simp_all
  with True show ?thesis by simp
next
  case False
  have "0 \<le> y mod k" "y mod k < k"
    using assms by (rule pos_mod_sign, rule pos_mod_bound)
  with False have r: "0 \<le> y mod k - 1" "y mod k - 1 < k" by linarith+
  have "y - 1 = k * (y div k) + (y mod k - 1)"
    by simp
  then have "(y - 1) div k = y div k"
    using r by (rule int_div_pos_eq)
  with False show ?thesis by simp
qed

lemma mod_100_4: "(y::int) mod 100 = 0 \<Longrightarrow> y mod 4 = 0"
proof -
  assume "y mod 100 = 0"
  then have "100 dvd y" by (simp add: dvd_eq_mod_eq_0)
  moreover have "(4::int) dvd 100" by simp
  ultimately have "4 dvd y" by (rule dvd_trans [rotated])
  then show ?thesis by (simp add: dvd_eq_mod_eq_0)
qed

lemma mod_400_100: "(y::int) mod 400 = 0 \<Longrightarrow> y mod 100 = 0"
proof -
  assume "y mod 400 = 0"
  then have "400 dvd y" by (simp add: dvd_eq_mod_eq_0)
  moreover have "(100::int) dvd 400" by simp
  ultimately have "100 dvd y" by (rule dvd_trans [rotated])
  then show ?thesis by (simp add: dvd_eq_mod_eq_0)
qed

lemma year_length_arith:
  fixes y a b c :: int
  shows "365 * y + (a + u) - (b + v) + (c + w) = 365 * (y - 1) + a - b + c + (365 + u - v + w)"
  by (simp add: algebra_simps)

lemma daysBeforeYear_Suc:
  "daysBeforeYear (y + 1) = daysBeforeYear y + (if leapYear y then 366 else 365)"
proof -
  define u :: int where "u = (if y mod 4 = 0 then 1 else 0)"
  define v :: int where "v = (if y mod 100 = 0 then 1 else 0)"
  define w :: int where "w = (if y mod 400 = 0 then 1 else 0)"
  have e: "daysBeforeYear (y + 1) = 365 * y + y div 4 - y div 100 + y div 400"
    by (simp add: daysBeforeYear_def)
  have d4: "y div 4 = (y - 1) div 4 + u"
    unfolding u_def by (rule div_pred) simp
  have d100: "y div 100 = (y - 1) div 100 + v"
    unfolding v_def by (rule div_pred) simp
  have d400: "y div 400 = (y - 1) div 400 + w"
    unfolding w_def by (rule div_pred) simp
  have f: "daysBeforeYear y =
      365 * (y - 1) + (y - 1) div 4 - (y - 1) div 100 + (y - 1) div 400"
    by (simp only: daysBeforeYear_def)
  have step: "daysBeforeYear (y + 1) = daysBeforeYear y + (365 + u - v + w)"
    unfolding e f d4 d100 d400 by (rule year_length_arith)
  have leap: "365 + u - v + w = (if leapYear y then 366 else 365)"
  proof (cases "y mod 4 = 0")
    case False
    then have "y mod 100 \<noteq> 0" "y mod 400 \<noteq> 0"
      using mod_100_4 [of y] mod_400_100 [of y] by metis+
    with False show ?thesis
      unfolding u_def v_def w_def leapYear_def by (simp only: if_False simp_thms; simp)
  next
    case four: True
    show ?thesis
    proof (cases "y mod 100 = 0")
      case False
      then have "y mod 400 \<noteq> 0"
        using mod_400_100 [of y] by metis
      with four False show ?thesis
        unfolding u_def v_def w_def leapYear_def by (simp only: if_False if_True simp_thms; simp)
    next
      case hundred: True
      show ?thesis
      proof (cases "y mod 400 = 0")
        case False
        with four hundred show ?thesis
          unfolding u_def v_def w_def leapYear_def
          by (simp only: if_False if_True simp_thms; simp)
      next
        case True
        with four hundred show ?thesis
          unfolding u_def v_def w_def leapYear_def
          by (simp only: if_False if_True simp_thms; simp)
      qed
    qed
  qed
  show ?thesis unfolding step leap ..
qed

lemma daysInMonth_pos: "28 \<le> daysInMonth y m"
  by (simp add: daysInMonth_def)

lemma validDate_nextDay: "validDate d \<Longrightarrow> validDate (nextDay d)"
  using daysInMonth_pos [of "year d" "Suc (month d)"] daysInMonth_pos [of "year d + 1" 1]
  by (auto simp: validDate_def nextDay_def)

lemma dateBefore_nextDay: "validDate d \<Longrightarrow> dateBefore d (nextDay d)"
  by (auto simp: validDate_def nextDay_def dateBefore_def)

lemma dateBefore_trans: "dateBefore a b \<Longrightarrow> dateBefore b c \<Longrightarrow> dateBefore a c"
  by (auto simp: dateBefore_def)

lemma daysBeforeMonth_Suc:
  "1 \<le> m \<Longrightarrow> daysBeforeMonth y (Suc m) = daysBeforeMonth y m + daysInMonth y m"
  by (simp add: daysBeforeMonth_def)

lemma months_upto_12: "[1..<12] = [1, 2, 3, 4, 5, 6, 7, 8, 9, 10, 11 :: nat]"
  by code_simp

lemma daysBeforeMonth_12: "daysBeforeMonth y 12 = (if leapYear y then 335 else 334)"
  unfolding daysBeforeMonth_def months_upto_12 by (simp add: daysInMonth_def)

lemma dayNumber_nextDay: "validDate d \<Longrightarrow> dayNumber (nextDay d) = dayNumber d + 1"
proof -
  assume v: "validDate d"
  show ?thesis
  proof (cases "day d < daysInMonth (year d) (month d)")
    case True
    then show ?thesis by (simp add: nextDay_def dayNumber_def)
  next
    case last: False
    with v have eq: "day d = daysInMonth (year d) (month d)"
      by (simp add: validDate_def)
    show ?thesis
    proof (cases "month d < 12")
      case True
      with v eq show ?thesis
        by (simp add: nextDay_def dayNumber_def daysBeforeMonth_Suc validDate_def)
    next
      case False
      with v have m: "month d = 12" by (simp add: validDate_def)
      have "daysBeforeMonth (year d + 1) 1 = 0" by (simp add: daysBeforeMonth_def)
      moreover have "daysInMonth (year d) 12 = 31" by (simp add: daysInMonth_def)
      ultimately show ?thesis
        using eq m by (simp add: nextDay_def dayNumber_def daysBeforeYear_Suc daysBeforeMonth_12)
    qed
  qed
qed

lemma validDate_addDays: "validDate d \<Longrightarrow> validDate (addDays n d)"
  by (induction n arbitrary: d) (simp_all add: validDate_nextDay)

lemma dateBefore_addDays: "validDate d \<Longrightarrow> 0 < n \<Longrightarrow> dateBefore d (addDays n d)"
proof (induction n arbitrary: d)
  case 0
  then show ?case by simp
next
  case (Suc n)
  show ?case
  proof (cases n)
    case 0
    with Suc.prems show ?thesis by (simp add: dateBefore_nextDay)
  next
    case (Suc k)
    then have "dateBefore (nextDay d) (addDays n (nextDay d))"
      using Suc.IH [of "nextDay d"] Suc.prems by (simp add: validDate_nextDay)
    then show ?thesis
      using dateBefore_nextDay [OF Suc.prems(1)] by (auto intro: dateBefore_trans)
  qed
qed

lemma dayNumber_addDays: "validDate d \<Longrightarrow> dayNumber (addDays n d) = dayNumber d + int n"
  by (induction n arbitrary: d) (simp_all add: validDate_nextDay dayNumber_nextDay)


lemma weekday_less: "weekday d < 7"
  by (simp add: weekday_def nat_less_iff)

lemma weekday_addDays:
  assumes "validDate d"
  shows "weekday (addDays n d) = (weekday d + n) mod 7"
proof -
  define w where "w = nat (dayNumber d mod 7)"
  have w: "dayNumber d mod 7 = int w"
    by (simp add: w_def)
  have "(dayNumber d + int n) mod 7 = (dayNumber d mod 7 + int n) mod 7"
    by (simp add: mod_add_left_eq)
  also have "\<dots> = int ((w + n) mod 7)"
    by (simp add: w zmod_int)
  finally have "nat ((dayNumber d + int n) mod 7) = (w + n) mod 7"
    by simp
  then show ?thesis
    by (simp add: weekday_def dayNumber_addDays [OF assms] w_def)
qed

lemma nextWeekday_Some:
  "nextWeekday k ws d = Some d' \<Longrightarrow> validDate d \<Longrightarrow>
   validDate d' \<and> dateBefore d d' \<and> weekday d' \<in> set ws"
proof (induction k arbitrary: d)
  case 0
  then show ?case by simp
next
  case (Suc k)
  show ?case
  proof (cases "weekday (nextDay d) \<in> set ws")
    case True
    with Suc.prems show ?thesis
      by (auto simp: Let_def validDate_nextDay dateBefore_nextDay)
  next
    case False
    with Suc.prems have "nextWeekday k ws (nextDay d) = Some d'"
      by (simp add: Let_def)
    from Suc.IH [OF this] Suc.prems(2)
    have "validDate d' \<and> dateBefore (nextDay d) d' \<and> weekday d' \<in> set ws"
      by (simp add: validDate_nextDay)
    then show ?thesis
      using dateBefore_nextDay [OF Suc.prems(2)] by (auto intro: dateBefore_trans)
  qed
qed

lemma nextWeekday_None:
  "nextWeekday k ws d = None \<Longrightarrow> j < k \<Longrightarrow> weekday (addDays (Suc j) d) \<notin> set ws"
proof (induction k arbitrary: d j)
  case 0
  then show ?case by simp
next
  case (Suc k)
  from Suc.prems(1) have here: "weekday (nextDay d) \<notin> set ws"
    and rest: "nextWeekday k ws (nextDay d) = None"
    by (simp_all add: Let_def split: if_splits)
  show ?case
  proof (cases j)
    case 0
    with here show ?thesis by simp
  next
    case (Suc i)
    with Suc.prems(2) have "i < k" by simp
    from Suc.IH [OF rest this] Suc show ?thesis by simp
  qed
qed

lemma weekday_reached:
  assumes "a < 7" and "w < 7"
  shows "(a + Suc ((w + 6 - a) mod 7)) mod 7 = (w::nat)"
proof -
  have "(a + Suc ((w + 6 - a) mod 7)) mod 7 = (Suc a + (w + 6 - a) mod 7) mod 7"
    by simp
  also have "\<dots> = (Suc a + (w + 6 - a)) mod 7"
    by (rule mod_add_right_eq)
  also have "Suc a + (w + 6 - a) = w + 7"
    using assms by simp
  also have "(w + 7) mod 7 = w"
    using assms by simp
  finally show ?thesis .
qed

lemma nextWeekday_total:
  assumes v: "validDate d" and w: "w \<in> set ws" "w < 7"
  shows "nextWeekday 7 ws d \<noteq> None"
proof
  assume none: "nextWeekday 7 ws d = None"
  define j where "j = (w + 6 - weekday d) mod 7"
  have "j < 7" by (simp add: j_def)
  from nextWeekday_None [OF none this]
  have "weekday (addDays (Suc j) d) \<notin> set ws" .
  moreover have "weekday (addDays (Suc j) d) = w"
    unfolding weekday_addDays [OF v] j_def
    by (rule weekday_reached [OF weekday_less w(2)])
  ultimately show False using w(1) by simp
qed

lemma month_index:
  fixes y q r :: int and m n :: nat
  assumes "12 * q + r = 12 * y + int (m - 1) + int n"
    and "0 \<le> r" "r < 12" "1 \<le> m" "m \<le> 12" "0 < n"
  shows "y < q \<or> (y = q \<and> m < nat r + 1)"
  using assms by auto

lemma validDate_addMonths: "validDate d \<Longrightarrow> validDate (addMonths n d)"
proof -
  assume v: "validDate d"
  define idx where "idx = year d * 12 + int (month d - 1) + int n"
  have r: "0 \<le> idx mod 12" "idx mod 12 < 12"
    by simp_all
  then have "nat (idx mod 12) + 1 \<le> 12"
    by linarith
  then show ?thesis
    using v daysInMonth_pos [of "idx div 12" "nat (idx mod 12) + 1"]
    by (simp add: addMonths_def Let_def validDate_def idx_def)
qed

lemma dateBefore_addMonths:
  assumes v: "validDate d" and n: "0 < n"
  shows "dateBefore d (addMonths n d)"
proof -
  define idx where "idx = year d * 12 + int (month d - 1) + int n"
  define q where "q = idx div 12"
  define r where "r = idx mod 12"
  have "12 * q + r = 12 * year d + int (month d - 1) + int n"
    by (simp add: q_def r_def idx_def)
  moreover have "0 \<le> r" "r < 12"
    by (simp_all add: r_def)
  ultimately have "year d < q \<or> (year d = q \<and> month d < nat r + 1)"
    using v n by (intro month_index) (simp_all add: validDate_def)
  then show ?thesis
    by (simp add: dateBefore_def addMonths_def Let_def idx_def q_def r_def)
qed

text \<open>
  C6. For every valid repeat rule and every calendar date \<open>fromDate\<close>, \<open>nextOccurrence\<close>
  succeeds: it returns a calendar date, and that date is strictly after \<open>fromDate\<close>. The
  evaluator is a function of the rule and the date alone, so every call with the same
  rule and date returns that same date.
\<close>

theorem nextOccurrence_total:
  assumes "validRule rule" and "validDate fromDate"
  shows "\<exists>next. nextOccurrence rule fromDate = Some next
           \<and> validDate next \<and> dateBefore fromDate next
           \<and> (\<forall>other. nextOccurrence rule fromDate = Some other \<longrightarrow> other = next)"
proof (cases "interval rule")
  case Day
  with assms show ?thesis
    by (simp add: nextOccurrence_def validRule_def validDate_addDays dateBefore_addDays)
next
  case Month
  with assms show ?thesis
    by (simp add: nextOccurrence_def validRule_def validDate_addMonths dateBefore_addMonths)
next
  case Week
  show ?thesis
  proof (cases "weekdays rule")
    case None
    with Week assms show ?thesis
      by (simp add: nextOccurrence_def validRule_def validDate_addDays dateBefore_addDays)
  next
    case (Some ws)
    with assms(1) obtain w where "w \<in> set ws" "w < 7"
      by (cases ws) (auto simp: validRule_def)
    from nextWeekday_total [OF assms(2) this]
    obtain d' where d': "nextWeekday 7 ws fromDate = Some d'" by auto
    from nextWeekday_Some [OF this assms(2)] d' Week Some show ?thesis
      by (simp add: nextOccurrence_def)
  qed
qed


theorem nextOccurrence_total_witness:
  "nextOccurrence monthlyRule lastOfJanuary = Some \<lparr>year = 2023, month = 2, day = 28\<rparr>
   \<and> dateBefore lastOfJanuary \<lparr>year = 2023, month = 2, day = 28\<rparr>
   \<and> nextOccurrence weeklyRule aTuesday = Some \<lparr>year = 2026, month = 11, day = 6\<rparr>
   \<and> dateBefore aTuesday \<lparr>year = 2026, month = 11, day = 6\<rparr>"
proof -
  have r1: "validRule monthlyRule" by (simp add: validRule_def monthlyRule_def)
  have d1: "validDate lastOfJanuary"
    by (simp add: validDate_def lastOfJanuary_def daysInMonth_def)
  have e1: "nextOccurrence monthlyRule lastOfJanuary = Some \<lparr>year = 2023, month = 2, day = 28\<rparr>"
    by code_simp
  have r2: "validRule weeklyRule" by (simp add: validRule_def weeklyRule_def)
  have d2: "validDate aTuesday"
    by (simp add: validDate_def aTuesday_def daysInMonth_def)
  have e2: "nextOccurrence weeklyRule aTuesday = Some \<lparr>year = 2026, month = 11, day = 6\<rparr>"
    by code_simp
  from nextOccurrence_total [OF r1 d1] nextOccurrence_total [OF r2 d2] e1 e2
  show ?thesis by simp
qed

end
